theory Spec2Isabelle
  imports Complex_Main "HOL-Library.Word"
begin

unbundle bit_operations_syntax

section \<open>The UNI-T UT32x protocol decoder (src/hardware/uni-t-ut32x/protocol.c)\<close>

subsection \<open>Bytes and constants\<close>

type_synonym u8 = "8 word"

text \<open>Modelled from the spec: \<^verbatim>\<open>PACKET_SIZE\<close> is declared in protocol.h, which is not
  among the sources; the specification gives the fixed frame size as 19 bytes, and the
  offsets 17 and 18 read by \<^verbatim>\<open>process_packet\<close> agree with it.\<close>

definition PACKET_SIZE :: nat where
  "PACKET_SIZE = 19"

text \<open>\<^verbatim>\<open>#define SEP "\r\n"\<close>, \<^verbatim>\<open>#define BLANK ':'\<close>, \<^verbatim>\<open>#define NEG ';'\<close>, as ASCII codes.\<close>

definition SEP :: "u8 list" where
  "SEP = [0x0D, 0x0A]"

definition BLANK :: u8 where
  "BLANK = 0x3A"

definition NEG :: u8 where
  "NEG = 0x3B"

subsection \<open>The C type float\<close>

text \<open>
  A \<^verbatim>\<open>float\<close> is an IEEE 754 binary32 value: not-a-number, or a finite number with a
  24-bit significand. Every arithmetic operation rounds its exact result to the nearest
  such number, ties to the even significand. The two zeros are identified (they compare
  equal in C and neither is a NaN). Infinities and subnormal numbers are left out: the
  operations below are those of \<^verbatim>\<open>parse_temperature\<close>, whose values are 0 or lie
  between 0.1 and 9999.
\<close>

datatype cfloat = NaN | Fin rat

fun bit_length :: "nat \<Rightarrow> nat" where
  "bit_length n = (if n = 0 then 0 else Suc (bit_length (n div 2)))"

declare bit_length.simps [simp del]

text \<open>The exponent \<open>e\<close> of a positive number \<open>x\<close>: \<open>2 ^ e \<le> x < 2 ^ (e + 1)\<close>.\<close>

definition f32_exponent :: "rat \<Rightarrow> int" where
  "f32_exponent x =
     (if 1 \<le> x then int (bit_length (nat \<lfloor>x\<rfloor>)) - 1
      else - int (bit_length (nat (\<lceil>1 / x\<rceil> - 1))))"

definition round_half_even :: "rat \<Rightarrow> int" where
  "round_half_even q =
     (let f = \<lfloor>q\<rfloor>; r = q - of_int f
      in if r < 1 / 2 then f
         else if 1 / 2 < r then f + 1
         else if even f then f else f + 1)"

definition f32_round :: "rat \<Rightarrow> rat" where
  "f32_round x =
     (if x = 0 then 0
      else let e = f32_exponent \<bar>x\<bar> - 23
           in sgn x * of_int (round_half_even (\<bar>x\<bar> * power_int 2 (- e))) * power_int 2 e)"

definition f32_of_int :: "int \<Rightarrow> cfloat" where
  "f32_of_int k = Fin (f32_round (of_int k))"

fun f32_mul :: "cfloat \<Rightarrow> cfloat \<Rightarrow> cfloat" where
  "f32_mul (Fin a) (Fin b) = Fin (f32_round (a * b))"
| "f32_mul _ _ = NaN"

fun f32_add :: "cfloat \<Rightarrow> cfloat \<Rightarrow> cfloat" where
  "f32_add (Fin a) (Fin b) = Fin (f32_round (a + b))"
| "f32_add _ _ = NaN"

text \<open>Division by zero gives an infinity or a NaN in C; the only divisor here is 10.\<close>

fun f32_div :: "cfloat \<Rightarrow> cfloat \<Rightarrow> cfloat" where
  "f32_div (Fin a) (Fin b) = (if b = 0 then NaN else Fin (f32_round (a / b)))"
| "f32_div _ _ = NaN"

fun f32_neg :: "cfloat \<Rightarrow> cfloat" where
  "f32_neg (Fin a) = Fin (- a)"
| "f32_neg NaN = NaN"

fun isnan :: "cfloat \<Rightarrow> bool" where
  "isnan NaN = True"
| "isnan (Fin _) = False"

subsection \<open>parse\_temperature (lines 33--64)\<close>

text \<open>
  The loop \<^verbatim>\<open>for (i = 0; i < 4; i++)\<close> over \<^verbatim>\<open>buf[i]\<close>, as a recursion over the four
  bytes, with the loop's variables \<open>temp\<close> and \<open>negative\<close> as arguments. The two
  \<^verbatim>\<open>return NAN\<close> leave the loop; the code after the loop is the empty case.
\<close>

fun parse_temperature_loop :: "u8 list \<Rightarrow> cfloat \<Rightarrow> bool \<Rightarrow> cfloat" where
  "parse_temperature_loop [] temp negative =
     (let temp = f32_div temp (f32_of_int 10)
      in if negative then f32_neg temp else temp)"
| "parse_temperature_loop (b # bs) temp negative =
     (if b = BLANK then parse_temperature_loop bs temp negative
      else if b = NEG then
        (if negative then NaN else parse_temperature_loop bs temp True)
      else if b < 0x30 \<or> 0x39 < b then NaN
      else parse_temperature_loop bs
             (f32_add (f32_mul temp (f32_of_int 10)) (f32_of_int (uint b - 0x30))) negative)"

text \<open>\<open>buf\<close> is what the pointer points at; the function reads its first four bytes.\<close>

definition parse_temperature :: "u8 list \<Rightarrow> cfloat" where
  "parse_temperature buf = parse_temperature_loop (take 4 buf) (Fin 0) False"

subsection \<open>The device instance and its collaborators\<close>

datatype sr_mq = SR_MQ_TEMPERATURE

datatype sr_unit = SR_UNIT_CELSIUS | SR_UNIT_FAHRENHEIT | SR_UNIT_KELVIN

datatype sr_mqflag = SR_MQFLAG_RELATIVE

datatype sr_status = SR_ST_ACTIVE | SR_ST_STOPPING

text \<open>The analog payload handed to the session: the fields of \<^verbatim>\<open>struct sr_datafeed_analog\<close>
  and of its \<^verbatim>\<open>meaning\<close> that \<^verbatim>\<open>process_packet\<close> writes. \<open>None\<close> is a field still as
  \<^verbatim>\<open>sr_analog_init\<close> left it; a channel \<open>None\<close> is the null pointer that
  \<^verbatim>\<open>g_slist_nth_data\<close> returns past the end of the list.\<close>

record sr_datafeed_analog =
  analog_data :: "cfloat option"
  num_samples :: nat
  encoding_digits :: int
  meaning_mq :: "sr_mq option"
  meaning_unit :: "sr_unit option"
  meaning_mqflags :: "sr_mqflag set"
  meaning_channels :: "string option list"

record sr_sw_limits =
  limit_samples :: nat
  samples_read :: nat

text \<open>\<^verbatim>\<open>struct dev_context\<close>: \<open>packet\<close> is the whole array (its length is the array's
  capacity), \<open>packet_len\<close> the number of bytes in use; \<open>xfer_live\<close> says that
  \<^verbatim>\<open>devc->xfer\<close> has not been freed.\<close>

record dev_context =
  limits :: sr_sw_limits
  packet :: "u8 list"
  packet_len :: nat
  xfer_live :: bool

text \<open>\<^verbatim>\<open>struct sr_dev_inst\<close>, with the two collaborators the code writes to: \<open>session_feed\<close>
  is what \<^verbatim>\<open>sr_session_send\<close> has received, oldest first, and \<open>stop_requested\<close> says
  that \<^verbatim>\<open>sr_dev_acquisition_stop\<close> has been called.\<close>

record sr_dev_inst =
  status :: sr_status
  channels :: "string list"
  priv :: dev_context
  session_feed :: "sr_datafeed_analog list"
  stop_requested :: bool

text \<open>Modelled from the spec: \<^verbatim>\<open>sr_analog_init\<close> is defined outside the sources. It is
  taken to clear the payload (the unit starts as "unknown", as the specification has it;
  no flag, no channel, no sample, no data) and to record its last argument, the number of
  digits.\<close>

definition sr_analog_init :: "int \<Rightarrow> sr_datafeed_analog" where
  "sr_analog_init digits =
     \<lparr>analog_data = None, num_samples = 0, encoding_digits = digits, meaning_mq = None,
      meaning_unit = None, meaning_mqflags = {}, meaning_channels = []\<rparr>"

text \<open>Modelled from the spec: the limiter (\<^verbatim>\<open>sr_sw_limits_update_samples_read\<close>,
  \<^verbatim>\<open>sr_sw_limits_check\<close>) and \<^verbatim>\<open>sr_dev_acquisition_stop\<close> are defined outside the
  sources. The first adds the count to the number of samples read, the second says whether
  a configured limit (0: none) has been reached, the third signals the stop.\<close>

definition sr_sw_limits_update_samples_read :: "sr_sw_limits \<Rightarrow> nat \<Rightarrow> sr_sw_limits" where
  "sr_sw_limits_update_samples_read l n = l\<lparr>samples_read := samples_read l + n\<rparr>"

definition sr_sw_limits_check :: "sr_sw_limits \<Rightarrow> bool" where
  "sr_sw_limits_check l \<longleftrightarrow> 0 < limit_samples l \<and> limit_samples l \<le> samples_read l"

definition sr_dev_acquisition_stop :: "sr_dev_inst \<Rightarrow> sr_dev_inst" where
  "sr_dev_acquisition_stop sdi = sdi\<lparr>stop_requested := True\<rparr>"

text \<open>Modelled from the spec: \<^verbatim>\<open>sr_session_send\<close> is defined outside the sources; it hands
  the record to the session, the sink, which keeps what it receives in order.\<close>

definition sr_session_send :: "sr_dev_inst \<Rightarrow> sr_datafeed_analog \<Rightarrow> sr_dev_inst" where
  "sr_session_send sdi analog = sdi\<lparr>session_feed := session_feed sdi @ [analog]\<rparr>"

text \<open>GLib's \<^verbatim>\<open>g_slist_nth_data\<close>: the element at a position, or the null pointer past the
  end of the list.\<close>

definition g_slist_nth_data :: "'a list \<Rightarrow> nat \<Rightarrow> 'a option" where
  "g_slist_nth_data xs n = (if n < length xs then Some (xs ! n) else None)"

subsection \<open>process\_packet (lines 66--157)\<close>

text \<open>The first switch (lines 105--118), on \<^verbatim>\<open>pkt[5] - '0'\<close>, an \<^verbatim>\<open>int\<close>.\<close>

definition select_unit :: "u8 \<Rightarrow> sr_datafeed_analog \<Rightarrow> sr_datafeed_analog" where
  "select_unit b analog =
     (let d = uint b - 0x30
      in if d = 1 then analog\<lparr>meaning_unit := Some SR_UNIT_CELSIUS\<rparr>
         else if d = 2 then analog\<lparr>meaning_unit := Some SR_UNIT_FAHRENHEIT\<rparr>
         else if d = 3 then analog\<lparr>meaning_unit := Some SR_UNIT_KELVIN\<rparr>
         else analog)"

text \<open>The second switch (lines 119--137), on \<^verbatim>\<open>pkt[13] - '0'\<close>: the payload with its
  channel, or \<open>None\<close> where the default case clears \<^verbatim>\<open>is_valid\<close>.\<close>

definition select_channel ::
  "string list \<Rightarrow> u8 \<Rightarrow> sr_datafeed_analog \<Rightarrow> sr_datafeed_analog option" where
  "select_channel chs b analog =
     (let d = uint b - 0x30
      in if d = 0 then Some (analog\<lparr>meaning_channels := [g_slist_nth_data chs 0]\<rparr>)
         else if d = 1 then Some (analog\<lparr>meaning_channels := [g_slist_nth_data chs 1]\<rparr>)
         else if d = 2 \<or> d = 3 then
           Some (analog\<lparr>meaning_channels := [g_slist_nth_data chs 2],
                        meaning_mqflags := meaning_mqflags analog \<union> {SR_MQFLAG_RELATIVE}\<rparr>)
         else None)"

text \<open>The block under the first \<^verbatim>\<open>if (is_valid)\<close> (lines 100--146): the payload that is
  sent, if one is.\<close>

definition build_analog :: "sr_dev_inst \<Rightarrow> u8 list \<Rightarrow> cfloat \<Rightarrow> sr_datafeed_analog option" where
  "build_analog sdi pkt temp =
     (let analog = sr_analog_init 1;
          analog = analog\<lparr>meaning_mq := Some SR_MQ_TEMPERATURE, meaning_mqflags := {}\<rparr>;
          analog = select_unit (pkt ! 5) analog
      in case select_channel (channels sdi) (pkt ! 13) analog of
           None \<Rightarrow> None
         | Some analog \<Rightarrow> Some (analog\<lparr>num_samples := 1, analog_data := Some temp\<rparr>))"

text \<open>Lines 153--156.\<close>

definition count_packet :: "sr_dev_inst \<Rightarrow> sr_dev_inst" where
  "count_packet sdi =
     (let devc = priv sdi;
          devc = devc\<lparr>limits := sr_sw_limits_update_samples_read (limits devc) 1\<rparr>;
          sdi = sdi\<lparr>priv := devc\<rparr>
      in if sr_sw_limits_check (limits devc) then sr_dev_acquisition_stop sdi else sdi)"

text \<open>\<open>pkt\<close> is the \<open>len\<close> bytes the pointer points at. The three early returns come
  first; \<open>&pkt[1]\<close> is \<open>drop 1 pkt\<close>. The logging calls have no effect on the state.\<close>

definition process_packet :: "sr_dev_inst \<Rightarrow> u8 list \<Rightarrow> sr_dev_inst" where
  "process_packet sdi pkt =
     (if length pkt \<noteq> PACKET_SIZE then sdi
      else if pkt ! 17 \<noteq> SEP ! 0 \<or> pkt ! 18 \<noteq> SEP ! 1 then sdi
      else if pkt ! 8 \<noteq> 0x30 \<or> pkt ! 16 \<noteq> 0x31 then sdi
      else
        let is_valid = \<not> (pkt ! 1 = NEG \<and> pkt ! 2 = NEG \<and> pkt ! 3 = NEG \<and> pkt ! 4 = NEG);
            temp = parse_temperature (drop 1 pkt);
            is_valid = (if isnan temp then False else is_valid);
            sdi = (if is_valid then
                     (case build_analog sdi pkt temp of
                        None \<Rightarrow> sdi
                      | Some analog \<Rightarrow> sr_session_send sdi analog)
                   else sdi)
        in count_packet sdi)"

subsection \<open>uni\_t\_ut32x\_receive\_transfer (lines 159--199)\<close>

text \<open>A completed transfer: its \<^verbatim>\<open>actual_length\<close> and the bytes of its \<^verbatim>\<open>buffer\<close>.\<close>

record libusb_transfer =
  actual_length :: int
  buffer :: "u8 list"

text \<open>C does not check the bounds of \<^verbatim>\<open>memcpy\<close>. The model does, so that a copy that would
  read past the report or write past the packet array is a result of its own, not a state.\<close>

datatype fault = ReadPastReport | WritePastPacket

definition memcpy :: "u8 list \<Rightarrow> nat \<Rightarrow> u8 list \<Rightarrow> nat \<Rightarrow> u8 list" where
  "memcpy dst off src n = take off dst @ take n src @ drop (off + n) dst"

text \<open>Lines 170--173: the payload length is the low nibble of the first byte, the payload
  the bytes after it.\<close>

definition append_payload :: "libusb_transfer \<Rightarrow> dev_context \<Rightarrow> fault + dev_context" where
  "append_payload transfer devc =
     (case buffer transfer of
        [] \<Rightarrow> Inl ReadPastReport
      | b0 # payload \<Rightarrow>
          let hid_payload_len = unat (b0 AND 0x0f)
          in if length payload < hid_payload_len then Inl ReadPastReport
             else if length (packet devc) < packet_len devc + hid_payload_len
               then Inl WritePastPacket
             else Inr (devc\<lparr>packet := memcpy (packet devc) (packet_len devc) payload hid_payload_len,
                            packet_len := packet_len devc + hid_payload_len\<rparr>))"

text \<open>The condition of line 174 and the one of line 180.\<close>

definition end_of_packet :: "dev_context \<Rightarrow> bool" where
  "end_of_packet devc \<longleftrightarrow>
     2 \<le> packet_len devc
     \<and> packet devc ! (packet_len devc - 2) = SEP ! 0
     \<and> packet devc ! (packet_len devc - 1) = SEP ! 1"

definition buffer_overrun :: "dev_context \<Rightarrow> bool" where
  "buffer_overrun devc \<longleftrightarrow> PACKET_SIZE < packet_len devc"

text \<open>\<^verbatim>\<open>process_packet(sdi, devc->packet, devc->packet_len); devc->packet_len = 0;\<close> The
  frame is the first \<open>packet_len\<close> bytes of the array; \<open>append_payload\<close> has checked
  that they lie within it.\<close>

definition process_and_reset :: "sr_dev_inst \<Rightarrow> sr_dev_inst" where
  "process_and_reset sdi =
     (let sdi = process_packet sdi (take (packet_len (priv sdi)) (packet (priv sdi)))
      in sdi\<lparr>priv := (priv sdi)\<lparr>packet_len := 0\<rparr>\<rparr>)"

text \<open>Lines 174--186.\<close>

definition detect_frame :: "sr_dev_inst \<Rightarrow> sr_dev_inst" where
  "detect_frame sdi =
     (if end_of_packet (priv sdi) then process_and_reset sdi
      else if buffer_overrun (priv sdi) then process_and_reset sdi
      else sdi)"

text \<open>Lines 167--187.\<close>

definition receive_payload :: "libusb_transfer \<Rightarrow> sr_dev_inst \<Rightarrow> fault + sr_dev_inst" where
  "receive_payload transfer sdi =
     (if actual_length transfer = 8 then
        (case append_payload transfer (priv sdi) of
           Inl f \<Rightarrow> Inl f
         | Inr devc \<Rightarrow> Inr (detect_frame (sdi\<lparr>priv := devc\<rparr>)))
      else Inr sdi)"

text \<open>Lines 189--197; \<open>ret\<close> is what \<^verbatim>\<open>libusb_submit_transfer\<close> returns.\<close>

definition resubmit :: "int \<Rightarrow> sr_dev_inst \<Rightarrow> sr_dev_inst" where
  "resubmit ret sdi =
     (if status sdi \<noteq> SR_ST_STOPPING then
        (if ret \<noteq> 0 then sdi\<lparr>status := SR_ST_STOPPING, priv := (priv sdi)\<lparr>xfer_live := False\<rparr>\<rparr>
         else sdi)
      else sdi\<lparr>priv := (priv sdi)\<lparr>xfer_live := False\<rparr>\<rparr>)"

definition uni_t_ut32x_receive_transfer ::
  "libusb_transfer \<Rightarrow> int \<Rightarrow> sr_dev_inst \<Rightarrow> fault + sr_dev_inst" where
  "uni_t_ut32x_receive_transfer transfer ret sdi =
     (case receive_payload transfer sdi of
        Inl f \<Rightarrow> Inl f
      | Inr sdi \<Rightarrow> Inr (resubmit ret sdi))"

text \<open>A stream of completed transfers, each with the result of its resubmission.\<close>

fun receive_transfers :: "(libusb_transfer \<times> int) list \<Rightarrow> sr_dev_inst \<Rightarrow> fault + sr_dev_inst" where
  "receive_transfers [] sdi = Inr sdi"
| "receive_transfers ((transfer, ret) # ts) sdi =
     (case uni_t_ut32x_receive_transfer transfer ret sdi of
        Inl f \<Rightarrow> Inl f
      | Inr sdi \<Rightarrow> receive_transfers ts sdi)"

section \<open>The specification's vocabulary\<close>

subsection \<open>Frames\<close>

text \<open>The three checks of \<^verbatim>\<open>process_packet\<close> before it looks at the measurement: the length,
  the separator at offsets 17 and 18, the markers at offsets 8 and 16.\<close>

definition well_framed :: "u8 list \<Rightarrow> bool" where
  "well_framed pkt \<longleftrightarrow>
     length pkt = PACKET_SIZE \<and> pkt ! 17 = SEP ! 0 \<and> pkt ! 18 = SEP ! 1
     \<and> pkt ! 8 = 0x30 \<and> pkt ! 16 = 0x31"

text \<open>A frame that passes the three checks and whose temperature field is a measurement:
  not the four sign markers of "no measurement", and parsed to a number.\<close>

definition carries_measurement :: "u8 list \<Rightarrow> bool" where
  "carries_measurement pkt \<longleftrightarrow>
     well_framed pkt
     \<and> \<not> (pkt ! 1 = NEG \<and> pkt ! 2 = NEG \<and> pkt ! 3 = NEG \<and> pkt ! 4 = NEG)
     \<and> \<not> isnan (parse_temperature (drop 1 pkt))"

subsection \<open>The temperature field\<close>

text \<open>A well-formed field holds digits, blanks and at most one sign marker. Its value in
  tenths is the decimal number its digits write, negated if the sign marker is present.\<close>

definition is_digit :: "u8 \<Rightarrow> bool" where
  "is_digit b \<longleftrightarrow> 0x30 \<le> b \<and> b \<le> 0x39"

definition digit_value :: "u8 \<Rightarrow> int" where
  "digit_value b = uint b - 0x30"

definition decimal :: "int \<Rightarrow> u8 list \<Rightarrow> int" where
  "decimal m ds = foldl (\<lambda>m b. 10 * m + digit_value b) m ds"

definition well_formed_field :: "u8 list \<Rightarrow> bool" where
  "well_formed_field bs \<longleftrightarrow>
     list_all (\<lambda>b. is_digit b \<or> b = BLANK \<or> b = NEG) bs \<and> count_list bs NEG \<le> 1"

definition field_tenths :: "u8 list \<Rightarrow> int" where
  "field_tenths bs =
     (let magnitude = decimal 0 (filter is_digit bs)
      in if NEG \<in> set bs then - magnitude else magnitude)"

subsection \<open>The frame buffer\<close>

text \<open>The FrameBuffer is the part of the packet array in use. The two predicates of the
  Frame Detector are the specification's: terminated is "length at least 2 and the last
  two bytes are the separator", overrun is "longer than 19 bytes".\<close>

definition frame_buffer :: "dev_context \<Rightarrow> u8 list" where
  "frame_buffer devc = take (packet_len devc) (packet devc)"

definition terminated :: "u8 list \<Rightarrow> bool" where
  "terminated fb \<longleftrightarrow> 2 \<le> length fb \<and> drop (length fb - 2) fb = SEP"

definition overrun :: "u8 list \<Rightarrow> bool" where
  "overrun fb \<longleftrightarrow> 19 < length fb"

text \<open>Two device contexts, and two device instances, that differ at most in the bytes of
  the packet array that are not in use.\<close>

definition same_buffer :: "dev_context \<Rightarrow> dev_context \<Rightarrow> bool" where
  "same_buffer d d' \<longleftrightarrow>
     limits d = limits d' \<and> xfer_live d = xfer_live d'
     \<and> packet_len d = packet_len d'
     \<and> length (packet d) = length (packet d')
     \<and> frame_buffer d = frame_buffer d'"

definition same_frame_buffer :: "sr_dev_inst \<Rightarrow> sr_dev_inst \<Rightarrow> bool" where
  "same_frame_buffer s s' \<longleftrightarrow>
     status s = status s' \<and> channels s = channels s' \<and> session_feed s = session_feed s'
     \<and> stop_requested s = stop_requested s' \<and> same_buffer (priv s) (priv s')"

subsection \<open>Example inputs\<close>

text \<open>A device with an empty packet array of 32 bytes, the same device with some bytes in
  the array, an 8-byte HID report carrying a payload of at most 7 bytes, and a frame in
  the wire format with a given temperature field, unit code and channel code.\<close>

definition idle_device :: sr_dev_inst where
  "idle_device =
     \<lparr>status = SR_ST_ACTIVE, channels = [''T1'', ''T2'', ''T1-T2''],
      priv = \<lparr>limits = \<lparr>limit_samples = 0, samples_read = 0\<rparr>,
              packet = replicate 32 0, packet_len = 0, xfer_live = True\<rparr>,
      session_feed = [], stop_requested = False\<rparr>"

definition holding :: "u8 list \<Rightarrow> sr_dev_inst" where
  "holding bytes =
     idle_device\<lparr>priv := (priv idle_device)
       \<lparr>packet := bytes @ replicate (32 - length bytes) 0, packet_len := length bytes\<rparr>\<rparr>"

definition hid_report :: "u8 list \<Rightarrow> libusb_transfer" where
  "hid_report payload =
     \<lparr>actual_length = 8, buffer = take 8 (of_nat (length payload) # payload @ replicate 7 0)\<rparr>"

definition ut32x_frame :: "u8 list \<Rightarrow> u8 \<Rightarrow> u8 \<Rightarrow> u8 list" where
  "ut32x_frame field unit_code channel_code =
     [0x30] @ field @ [unit_code, 0x30, 0x30, 0x30, 0x30, 0x30, 0x30, 0x30, channel_code,
       0x30, 0x30, 0x31, 0x0D, 0x0A]"

section \<open>Lemmas\<close>

subsection \<open>Rounding to binary32 is exact on integers and half-integers below \<open>2 ^ 24\<close>\<close>

lemma bit_length_le: "n < 2 ^ w \<Longrightarrow> bit_length n \<le> w"
proof (induction n arbitrary: w rule: bit_length.induct)
  case (1 n)
  show ?case
  proof (cases "n = 0")
    case True
    then show ?thesis by (simp add: bit_length.simps)
  next
    case False
    with "1.prems" obtain v where w: "w = Suc v"
      by (cases w) auto
    with "1.prems" have "n div 2 < 2 ^ v" by auto
    with "1.IH" [OF False] have "bit_length (n div 2) \<le> v" .
    with False w show ?thesis by (subst bit_length.simps) simp
  qed
qed

lemma round_half_even_of_int: "round_half_even (of_int j) = j"
  by (simp add: round_half_even_def)

lemma f32_round_of_int:
  assumes "0 \<le> k" and "k < 2 ^ 24"
  shows "f32_round (of_int k) = of_int k"
proof (cases "k = 0")
  case True
  then show ?thesis by (simp add: f32_round_def)
next
  case False
  with assms have pos: "0 < k" by simp
  define L where "L = bit_length (nat k)"
  have "nat k < 2 ^ 24" using assms by (simp add: nat_less_iff)
  then have L: "L \<le> 24" unfolding L_def by (rule bit_length_le)
  have ex: "f32_exponent (of_int k) = int L - 1"
    using pos by (simp add: f32_exponent_def L_def)
  define d where "d = 24 - L"
  have e: "f32_exponent (of_int k) - 23 = - int d" "23 - f32_exponent (of_int k) = int d"
    using L by (simp_all add: ex d_def)
  have "f32_round (of_int k) = of_int (round_half_even (of_int k * 2 ^ d)) * power_int 2 (- int d)"
    using pos by (simp add: f32_round_def e Let_def)
  also have "of_int k * (2::rat) ^ d = of_int (k * 2 ^ d)" by simp
  also have "round_half_even (of_int (k * 2 ^ d)) = k * 2 ^ d" by (rule round_half_even_of_int)
  also have "of_int (k * 2 ^ d) * power_int (2::rat) (- int d) = of_int k"
    by (simp add: power_int_minus)
  finally show ?thesis .
qed

lemma f32_round_minus: "f32_round (- x) = - f32_round x"
  by (simp add: f32_round_def Let_def)

lemma f32_of_int_exact: "0 \<le> k \<Longrightarrow> k < 2 ^ 24 \<Longrightarrow> f32_of_int k = Fin (of_int k)"
  by (simp add: f32_of_int_def f32_round_of_int)

lemma f32_round_half:
  assumes "0 \<le> k" and "k < 2 ^ 24"
  shows "f32_round (of_int k / 2) = of_int k / 2"
proof -
  consider "k = 0" | "k = 1" | "2 \<le> k" using assms(1) by linarith
  then show ?thesis
  proof cases
    case 1
    then show ?thesis by (simp add: f32_round_def)
  next
    case 2
    have "f32_round (1 / 2) = 1 / 2" by code_simp
    with 2 show ?thesis by simp
  next
    case 3
    define x :: rat where "x = of_int k / 2"
    define L where "L = bit_length (nat (k div 2))"
    have fl: "\<lfloor>x\<rfloor> = k div 2"
      unfolding x_def by (simp add: floor_divide_of_int_eq [of k 2, simplified])
    have x1: "1 \<le> x" "x \<noteq> 0" "\<bar>x\<bar> = x" "sgn x = 1"
      using 3 by (simp_all add: x_def)
    have "nat (k div 2) < 2 ^ 23" using assms by (simp add: nat_less_iff)
    then have L: "L \<le> 23" unfolding L_def by (rule bit_length_le)
    define D where "D = 24 - L"
    define d where "d = 23 - L"
    have D: "D = Suc d" using L by (simp add: D_def d_def)
    have ex: "f32_exponent x = int L - 1"
      using x1 by (simp add: f32_exponent_def L_def fl)
    have e: "f32_exponent x - 23 = - int D" "23 - f32_exponent x = int D"
      using L by (simp_all add: ex D_def)
    have "f32_round x = of_int (round_half_even (x * 2 ^ D)) * power_int 2 (- int D)"
      using x1 by (simp add: f32_round_def e Let_def)
    also have "x * 2 ^ D = of_int (k * 2 ^ d)" by (simp add: x_def D)
    also have "round_half_even (of_int (k * 2 ^ d)) = k * 2 ^ d" by (rule round_half_even_of_int)
    also have "of_int (k * 2 ^ d) * power_int (2::rat) (- int D) = x"
    proof -
      have "power_int (2::rat) (- int D) = inverse (2 ^ D)"
        by (simp only: power_int_minus power_int_of_nat)
      then show ?thesis by (simp add: x_def D)
    qed
    finally show ?thesis by (simp add: x_def)
  qed
qed

lemma f32_round_half_int:
  assumes "\<bar>k\<bar> < 2 ^ 24"
  shows "f32_round (of_int k / 2) = of_int k / 2"
proof (cases "0 \<le> k")
  case True
  with assms show ?thesis by (simp add: f32_round_half)
next
  case False
  with assms have "f32_round (of_int (- k) / 2) = of_int (- k) / 2"
    by (intro f32_round_half) simp_all
  then show ?thesis
    using f32_round_minus [of "of_int k / 2"] by simp
qed

subsection \<open>The value of the parsing loop\<close>

lemma digit_value_range: "is_digit b \<Longrightarrow> 0 \<le> digit_value b \<and> digit_value b \<le> 9"
  by (simp add: is_digit_def digit_value_def word_le_def)

lemma not_digit [simp]: "\<not> is_digit BLANK" "\<not> is_digit NEG"
  by (simp_all add: is_digit_def BLANK_def NEG_def)

lemma shift_digit:
  assumes "0 \<le> m" and "(m + 1) * 10 ^ Suc n \<le> (2::int) ^ 24" and "0 \<le> d" and "d \<le> 9"
  shows "10 * m + d < 2 ^ 24" and "(10 * m + d + 1) * 10 ^ n \<le> 2 ^ 24" and "m * 10 < 2 ^ 24"
proof -
  have le: "10 * m + d + 1 \<le> (m + 1) * 10" using assms by simp
  have "(10 * m + d + 1) * 10 ^ n \<le> ((m + 1) * 10) * 10 ^ n"
    using le by (rule mult_right_mono) simp
  also have "\<dots> = (m + 1) * 10 ^ Suc n" by simp
  also have "\<dots> \<le> 2 ^ 24" by (rule assms(2))
  finally show 2: "(10 * m + d + 1) * 10 ^ n \<le> 2 ^ 24" .
  have "(10 * m + d + 1) * 1 \<le> (10 * m + d + 1) * 10 ^ n"
    using assms by (intro mult_left_mono) simp_all
  with 2 have "10 * m + d + 1 \<le> 2 ^ 24" by simp
  then show "10 * m + d < 2 ^ 24" by simp
  then show "m * 10 < 2 ^ 24" using assms by simp
qed

lemma loop_step_exact:
  assumes "0 \<le> m" and "m * 10 < 2 ^ 24" and "0 \<le> d" and "10 * m + d < 2 ^ 24"
  shows "f32_add (f32_mul (Fin (of_int m)) (f32_of_int 10)) (f32_of_int d) = Fin (of_int (10 * m + d))"
proof -
  have "f32_of_int 10 = Fin 10" using f32_of_int_exact [of 10] by simp
  moreover have "f32_of_int d = Fin (of_int d)" using assms by (intro f32_of_int_exact) simp_all
  moreover have "f32_round (of_int m * 10) = of_int (m * 10)"
    using f32_round_of_int [of "m * 10"] assms by simp
  moreover have "f32_round (of_int (m * 10) + of_int d) = of_int (10 * m + d)"
    using f32_round_of_int [of "10 * m + d"] assms by (simp add: mult.commute)
  ultimately show ?thesis by simp
qed

lemma loop_end:
  assumes "0 \<le> m" and "m < 2 ^ 24"
  shows "parse_temperature_loop [] (Fin (of_int m)) negative
           = Fin (f32_round (of_int (if negative then - m else m) / 10))"
proof -
  have "f32_of_int 10 = Fin 10" using f32_of_int_exact [of 10] by simp
  then show ?thesis
    using f32_round_minus [of "of_int m / 10"] by (simp add: Let_def)
qed

lemma loop_value:
  assumes "list_all (\<lambda>b. is_digit b \<or> b = BLANK \<or> b = NEG) bs"
    and "count_list bs NEG \<le> (if negative then 0 else 1)"
    and "0 \<le> m" and "(m + 1) * 10 ^ length bs \<le> 2 ^ 24"
  shows "parse_temperature_loop bs (Fin (of_int m)) negative
           = Fin (f32_round (of_int (if negative \<or> NEG \<in> set bs
                                      then - decimal m (filter is_digit bs)
                                      else decimal m (filter is_digit bs)) / 10))"
  using assms
proof (induction bs arbitrary: m negative)
  case Nil
  then show ?case using loop_end [of m negative] by (simp add: decimal_def)
next
  case (Cons b bs)
  have bound: "(m + 1) * 10 ^ length bs \<le> 2 ^ 24"
  proof -
    have "(m + 1) * 10 ^ length bs \<le> (m + 1) * 10 ^ Suc (length bs)"
      using Cons.prems(3) by (intro mult_left_mono) simp_all
    with Cons.prems(4) show ?thesis by simp
  qed
  consider (blank) "b = BLANK" | (neg) "b = NEG" | (digit) "is_digit b"
    using Cons.prems(1) by auto
  then show ?case
  proof cases
    case blank
    then have "b \<noteq> NEG" by (simp add: BLANK_def NEG_def)
    with blank Cons.prems bound Cons.IH [of negative m] show ?thesis
      by (simp split: if_splits)
  next
    case neg
    then have nb: "b \<noteq> BLANK" by (simp add: BLANK_def NEG_def)
    from neg Cons.prems(2) have nn: "\<not> negative" and c: "count_list bs NEG = 0"
      by (auto split: if_splits)
    from Cons.prems(1) c bound Cons.prems(3) Cons.IH [of True m]
    show ?thesis using neg nb nn by simp
  next
    case digit
    then have nb: "b \<noteq> BLANK" "b \<noteq> NEG" by auto
    from digit have rng: "\<not> (b < 0x30 \<or> 0x39 < b)" by (auto simp: is_digit_def)
    let ?d = "digit_value b"
    from digit have d: "0 \<le> ?d" "?d \<le> 9" using digit_value_range by auto
    from Cons.prems(4) have p4: "(m + 1) * 10 ^ Suc (length bs) \<le> 2 ^ 24" by simp
    note sh = shift_digit [OF Cons.prems(3) p4 d]
    have step: "f32_add (f32_mul (Fin (of_int m)) (f32_of_int 10)) (f32_of_int (uint b - 0x30))
                  = Fin (of_int (10 * m + ?d))"
      using loop_step_exact [OF Cons.prems(3) sh(3) d(1) sh(1)] by (simp add: digit_value_def)
    have m': "0 \<le> 10 * m + ?d" using Cons.prems(3) d by simp
    from Cons.prems(2) nb have c: "count_list bs NEG \<le> (if negative then 0 else 1)" by simp
    from Cons.prems(1) have la: "list_all (\<lambda>b. is_digit b \<or> b = BLANK \<or> b = NEG) bs" by simp
    have "parse_temperature_loop (b # bs) (Fin (of_int m)) negative
            = parse_temperature_loop bs (Fin (of_int (10 * m + ?d))) negative"
      using nb rng step by simp
    also note Cons.IH [OF la c m' sh(2)]
    finally show ?thesis using digit nb by (simp add: decimal_def)
  qed
qed

lemma parse_temperature_value:
  assumes "length field = 4" and "well_formed_field field"
  shows "parse_temperature field = Fin (f32_round (of_int (field_tenths field) / 10))"
  using assms loop_value [of field False 0]
  by (simp add: parse_temperature_def well_formed_field_def field_tenths_def Let_def)

lemma parse_temperature_take: "parse_temperature (take 4 buf) = parse_temperature buf"
  by (simp add: parse_temperature_def)

lemma loop_double_negative:
  "(if negative then 1 else 2) \<le> count_list bs NEG \<Longrightarrow>
     parse_temperature_loop bs temp negative = NaN"
  by (induction bs arbitrary: temp negative) (auto simp: NEG_def BLANK_def split: if_splits)

subsection \<open>The value of a field, in tenths\<close>

lemma decimal_bound:
  assumes "0 \<le> m" and "list_all is_digit ds"
  shows "0 \<le> decimal m ds \<and> decimal m ds < (m + 1) * 10 ^ length ds"
  using assms
proof (induction ds arbitrary: m)
  case Nil
  then show ?case by (simp add: decimal_def)
next
  case (Cons d ds)
  let ?m = "10 * m + digit_value d"
  from Cons.prems have dv: "0 \<le> digit_value d" "digit_value d \<le> 9"
    using digit_value_range [of d] by simp_all
  with Cons.prems have m': "0 \<le> ?m" by simp
  from Cons.prems have "list_all is_digit ds" by simp
  from Cons.IH [OF m' this]
  have ih: "0 \<le> decimal ?m ds" "decimal ?m ds < (?m + 1) * 10 ^ length ds" by simp_all
  note ih(2)
  also have "(?m + 1) * 10 ^ length ds \<le> ((m + 1) * 10) * 10 ^ length ds"
    using dv by (intro mult_right_mono) simp_all
  also have "\<dots> = (m + 1) * 10 ^ length (d # ds)" by simp
  finally have "decimal ?m ds < (m + 1) * 10 ^ length (d # ds)" .
  moreover have "decimal m (d # ds) = decimal ?m ds" by (simp add: decimal_def)
  ultimately show ?case using ih(1) by simp
qed

lemma field_tenths_bound:
  assumes "length bs = 4"
  shows "\<bar>field_tenths bs\<bar> < 10000"
proof -
  let ?ds = "filter is_digit bs"
  have "list_all is_digit ?ds" by (simp add: list_all_iff)
  from decimal_bound [OF _ this, of 0]
  have d: "0 \<le> decimal 0 ?ds" "decimal 0 ?ds < 10 ^ length ?ds" by simp_all
  have "length ?ds \<le> 4" using assms length_filter_le [of is_digit bs] by simp
  then have "(10::int) ^ length ?ds \<le> 10 ^ 4" by (intro power_increasing) simp_all
  with d show ?thesis by (simp add: field_tenths_def Let_def)
qed

lemma multiple_of_five_exact:
  assumes "length bs = 4" and "5 dvd field_tenths bs"
  shows "f32_round (of_int (field_tenths bs) / 10) = of_int (field_tenths bs) / 10"
proof -
  from assms(2) obtain j where j: "field_tenths bs = 5 * j" ..
  with field_tenths_bound [OF assms(1)] have "\<bar>j\<bar> < 2 ^ 24" by simp
  then have "f32_round (of_int j / 2) = of_int j / 2" by (rule f32_round_half_int)
  moreover have "(of_int (field_tenths bs) :: rat) / 10 = of_int j / 2" by (simp add: j)
  ultimately show ?thesis by simp
qed

lemma well_formed_not_all_neg:
  assumes "well_formed_field [a, b, c, d]"
  shows "\<not> (a = NEG \<and> b = NEG \<and> c = NEG \<and> d = NEG)"
  using assms by (auto simp: well_formed_field_def)

subsection \<open>The packet array and the frame buffer\<close>

lemma length_memcpy:
  "off + n \<le> length dst \<Longrightarrow> n \<le> length src \<Longrightarrow> length (memcpy dst off src n) = length dst"
  by (simp add: memcpy_def)

lemma take_memcpy:
  "off + n \<le> length dst \<Longrightarrow> n \<le> length src \<Longrightarrow>
     take (off + n) (memcpy dst off src n) = take off dst @ take n src"
  by (simp add: memcpy_def)

lemma append_payload_cases:
  assumes "append_payload t d = Inr d'"
  obtains b0 payload where "buffer t = b0 # payload"
    and "unat (b0 AND 0x0f) \<le> length payload"
    and "packet_len d + unat (b0 AND 0x0f) \<le> length (packet d)"
    and "d' = d\<lparr>packet := memcpy (packet d) (packet_len d) payload (unat (b0 AND 0x0f)),
                   packet_len := packet_len d + unat (b0 AND 0x0f)\<rparr>"
proof (cases "buffer t")
  case Nil
  with assms show ?thesis by (simp add: append_payload_def)
next
  case (Cons b0 payload)
  with assms that [of b0 payload] show ?thesis
    by (simp add: append_payload_def Let_def split: if_splits)
qed

lemma append_payload_Inr:
  assumes "append_payload t d = Inr d'"
  shows "packet_len d' \<le> length (packet d')"
    and "length (packet d') = length (packet d)"
    and "limits d' = limits d" and "xfer_live d' = xfer_live d"
  using assms by (auto elim!: append_payload_cases simp: length_memcpy)

lemma last_two:
  assumes "2 \<le> n" and "n \<le> length xs"
  shows "drop (n - 2) (take n xs) = [xs ! (n - 2), xs ! (n - 1)]"
proof -
  define k where "k = n - 2"
  with assms have n: "n = Suc (Suc k)" by simp
  have 1: "drop k xs = xs ! k # drop (Suc k) xs"
    using assms n by (simp add: Cons_nth_drop_Suc)
  have 2: "drop (Suc k) xs = xs ! Suc k # drop (Suc (Suc k)) xs"
    using assms n by (simp add: Cons_nth_drop_Suc)
  have "drop k (take n xs) = take (Suc (Suc 0)) (drop k xs)"
    by (simp add: drop_take n numeral_2_eq_2)
  also have "\<dots> = [xs ! k, xs ! Suc k]"
    by (simp add: 1 2)
  finally show ?thesis by (simp add: n)
qed

lemma end_of_packet_terminated:
  assumes "packet_len d \<le> length (packet d)"
  shows "end_of_packet d \<longleftrightarrow> terminated (frame_buffer d)"
proof (cases "2 \<le> packet_len d")
  case True
  with assms show ?thesis
    using last_two [of "packet_len d" "packet d"]
    by (auto simp: end_of_packet_def terminated_def frame_buffer_def SEP_def min_def)
next
  case False
  with assms show ?thesis
    by (simp add: end_of_packet_def terminated_def frame_buffer_def)
qed

lemma buffer_overrun_overrun:
  "packet_len d \<le> length (packet d) \<Longrightarrow> buffer_overrun d \<longleftrightarrow> overrun (frame_buffer d)"
  by (simp add: buffer_overrun_def overrun_def frame_buffer_def PACKET_SIZE_def)

lemma length_frame_buffer:
  "packet_len d \<le> length (packet d) \<Longrightarrow> length (frame_buffer d) = packet_len d"
  by (simp add: frame_buffer_def)

subsection \<open>What a decode changes\<close>

lemma samples_read_count_packet:
  "samples_read (limits (priv (count_packet sdi))) = samples_read (limits (priv sdi)) + 1"
  by (simp add: count_packet_def Let_def sr_sw_limits_update_samples_read_def
      sr_dev_acquisition_stop_def)

lemma session_feed_count_packet: "session_feed (count_packet sdi) = session_feed sdi"
  by (simp add: count_packet_def Let_def sr_dev_acquisition_stop_def)

lemma packet_count_packet:
  "packet (priv (count_packet sdi)) = packet (priv sdi)"
  "packet_len (priv (count_packet sdi)) = packet_len (priv sdi)"
  by (simp_all add: count_packet_def Let_def sr_dev_acquisition_stop_def)

lemma process_packet_not_framed: "\<not> well_framed pkt \<Longrightarrow> process_packet sdi pkt = sdi"
  by (auto simp: well_framed_def process_packet_def)

lemma samples_read_process_packet:
  "samples_read (limits (priv (process_packet sdi pkt)))
     = samples_read (limits (priv sdi)) + (if well_framed pkt then 1 else 0)"
  by (auto simp: well_framed_def process_packet_def Let_def samples_read_count_packet
      sr_session_send_def split: option.splits)

lemma packet_process_packet:
  "packet (priv (process_packet sdi pkt)) = packet (priv sdi)"
  "packet_len (priv (process_packet sdi pkt)) = packet_len (priv sdi)"
  by (auto simp: process_packet_def Let_def packet_count_packet sr_session_send_def
      split: option.splits)

lemma field_bytes:
  assumes "length pkt = PACKET_SIZE"
  shows "take 4 (drop 1 pkt) = [pkt ! 1, pkt ! 2, pkt ! 3, pkt ! 4]"
proof (rule nth_equalityI)
  show "length (take 4 (drop 1 pkt)) = length [pkt ! 1, pkt ! 2, pkt ! 3, pkt ! 4]"
    using assms by (simp add: PACKET_SIZE_def)
next
  fix i
  assume "i < length (take 4 (drop 1 pkt))"
  then have "i < 4" by simp
  then consider "i = 0" | "i = 1" | "i = 2" | "i = 3" by linarith
  then show "take 4 (drop 1 pkt) ! i = [pkt ! 1, pkt ! 2, pkt ! 3, pkt ! 4] ! i"
    using assms by cases (simp_all add: PACKET_SIZE_def eval_nat_numeral)
qed

lemma build_analog_eq:
  "build_analog sdi pkt temp =
     (let u = uint (pkt ! 5) - 0x30; c = uint (pkt ! 13) - 0x30
      in if c \<in> {0, 1, 2, 3} then
           Some \<lparr>analog_data = Some temp, num_samples = 1, encoding_digits = 1,
                 meaning_mq = Some SR_MQ_TEMPERATURE,
                 meaning_unit =
                   (if u = 1 then Some SR_UNIT_CELSIUS
                    else if u = 2 then Some SR_UNIT_FAHRENHEIT
                    else if u = 3 then Some SR_UNIT_KELVIN
                    else None),
                 meaning_mqflags = (if c = 2 \<or> c = 3 then {SR_MQFLAG_RELATIVE} else {}),
                 meaning_channels = [g_slist_nth_data (channels sdi) (if c = 2 \<or> c = 3 then 2 else nat c)]\<rparr>
         else None)"
  by (simp add: build_analog_def select_unit_def select_channel_def sr_analog_init_def Let_def)

lemma session_feed_process_packet:
  "session_feed (process_packet sdi pkt) =
     (if well_framed pkt
         \<and> \<not> (pkt ! 1 = NEG \<and> pkt ! 2 = NEG \<and> pkt ! 3 = NEG \<and> pkt ! 4 = NEG)
         \<and> \<not> isnan (parse_temperature (drop 1 pkt))
      then (case build_analog sdi pkt (parse_temperature (drop 1 pkt)) of
              None \<Rightarrow> session_feed sdi
            | Some analog \<Rightarrow> session_feed sdi @ [analog])
      else session_feed sdi)"
  by (auto simp: well_framed_def process_packet_def Let_def session_feed_count_packet
      sr_session_send_def split: option.splits)

subsection \<open>What a transfer changes\<close>

lemma receive_payload_triggered:
  assumes "actual_length t = 8" and "append_payload t (priv sdi) = Inr devc"
    and "end_of_packet devc \<or> buffer_overrun devc"
  shows "receive_payload t sdi = Inr (process_and_reset (sdi\<lparr>priv := devc\<rparr>))"
  using assms by (auto simp: receive_payload_def detect_frame_def)

lemma process_and_reset_discard:
  assumes "\<not> well_framed (frame_buffer devc)"
  shows "process_and_reset (sdi\<lparr>priv := devc\<rparr>) = sdi\<lparr>priv := devc\<lparr>packet_len := 0\<rparr>\<rparr>"
  using assms by (simp add: process_and_reset_def Let_def process_packet_not_framed frame_buffer_def)

lemma samples_read_process_and_reset:
  "samples_read (limits (priv (process_and_reset sdi)))
     = samples_read (limits (priv sdi)) + (if well_framed (frame_buffer (priv sdi)) then 1 else 0)"
  by (simp add: process_and_reset_def Let_def samples_read_process_packet frame_buffer_def)

lemma packet_process_and_reset:
  "packet (priv (process_and_reset sdi)) = packet (priv sdi)"
  "packet_len (priv (process_and_reset sdi)) = 0"
  by (simp_all add: process_and_reset_def Let_def packet_process_packet)

lemma resubmit_fields:
  "session_feed (resubmit ret sdi) = session_feed sdi"
  "limits (priv (resubmit ret sdi)) = limits (priv sdi)"
  "packet (priv (resubmit ret sdi)) = packet (priv sdi)"
  "packet_len (priv (resubmit ret sdi)) = packet_len (priv sdi)"
  "channels (resubmit ret sdi) = channels sdi"
  "stop_requested (resubmit ret sdi) = stop_requested sdi"
  by (simp_all add: resubmit_def)

lemma receive_payload_discard:
  assumes "actual_length t = 8" and "append_payload t (priv sdi) = Inr devc"
    and "end_of_packet devc \<or> buffer_overrun devc"
    and "packet_len devc \<noteq> PACKET_SIZE"
  shows "\<not> well_framed (frame_buffer devc)"
    and "receive_payload t sdi = Inr (sdi\<lparr>priv := devc\<lparr>packet_len := 0\<rparr>\<rparr>)"
proof -
  from assms(2) have "packet_len devc \<le> length (packet devc)"
    by (rule append_payload_Inr)
  with assms(4) show nf: "\<not> well_framed (frame_buffer devc)"
    by (simp add: well_framed_def length_frame_buffer)
  then show "receive_payload t sdi = Inr (sdi\<lparr>priv := devc\<lparr>packet_len := 0\<rparr>\<rparr>)"
    using receive_payload_triggered [OF assms(1-3)]
    by (simp add: process_and_reset_discard)
qed

subsection \<open>The bytes of the array that are not in use are never read\<close>

lemma count_packet_same:
  assumes "same_frame_buffer s s'"
  shows "same_frame_buffer (count_packet s) (count_packet s')"
  using assms
  by (auto simp: same_frame_buffer_def same_buffer_def count_packet_def Let_def
      sr_dev_acquisition_stop_def frame_buffer_def)

lemma sr_session_send_same:
  assumes "same_frame_buffer s s'"
  shows "same_frame_buffer (sr_session_send s a) (sr_session_send s' a)"
  using assms by (simp add: same_frame_buffer_def sr_session_send_def)

lemma build_analog_same:
  "same_frame_buffer s s' \<Longrightarrow> build_analog s pkt temp = build_analog s' pkt temp"
  by (simp add: same_frame_buffer_def build_analog_def)

lemma process_packet_same:
  assumes "same_frame_buffer s s'"
  shows "same_frame_buffer (process_packet s pkt) (process_packet s' pkt)"
  using assms
  by (simp add: process_packet_def Let_def build_analog_same [OF assms] count_packet_same
      sr_session_send_same split: option.splits)

lemma same_buffer_reset:
  assumes "same_frame_buffer s s'"
  shows "same_frame_buffer (s\<lparr>priv := (priv s)\<lparr>packet_len := 0\<rparr>\<rparr>)
           (s'\<lparr>priv := (priv s')\<lparr>packet_len := 0\<rparr>\<rparr>)"
  using assms by (auto simp: same_frame_buffer_def same_buffer_def frame_buffer_def)

lemma process_and_reset_same:
  assumes "same_frame_buffer s s'"
  shows "same_frame_buffer (process_and_reset s) (process_and_reset s')"
proof -
  from assms have "frame_buffer (priv s) = frame_buffer (priv s')"
    by (simp add: same_frame_buffer_def same_buffer_def)
  then have "take (packet_len (priv s)) (packet (priv s))
               = take (packet_len (priv s')) (packet (priv s'))"
    by (simp add: frame_buffer_def)
  then show ?thesis
    using same_buffer_reset [OF process_packet_same [OF assms]]
    by (simp add: process_and_reset_def Let_def)
qed

lemma detect_frame_same:
  assumes "same_frame_buffer s s'" and "packet_len (priv s) \<le> length (packet (priv s))"
  shows "same_frame_buffer (detect_frame s) (detect_frame s')"
proof -
  from assms have sb: "same_buffer (priv s) (priv s')"
    by (simp add: same_frame_buffer_def)
  with assms(2) have le': "packet_len (priv s') \<le> length (packet (priv s'))"
    by (simp add: same_buffer_def)
  from sb have "end_of_packet (priv s) = end_of_packet (priv s')"
    by (simp add: end_of_packet_terminated [OF assms(2)] end_of_packet_terminated [OF le']
        same_buffer_def)
  moreover from sb have "buffer_overrun (priv s) = buffer_overrun (priv s')"
    by (simp add: buffer_overrun_def same_buffer_def)
  ultimately show ?thesis
    using assms(1) by (simp add: detect_frame_def process_and_reset_same)
qed

lemma append_payload_same:
  assumes "same_buffer d d'"
  shows "rel_sum (=) same_buffer (append_payload t d) (append_payload t d')"
proof (cases "buffer t")
  case Nil
  then show ?thesis by (simp add: append_payload_def)
next
  case (Cons b0 payload)
  let ?n = "unat (b0 AND 0x0f)"
  from assms have eq: "packet_len d = packet_len d'" "length (packet d) = length (packet d')"
    "take (packet_len d) (packet d) = take (packet_len d') (packet d')"
    "limits d = limits d'" "xfer_live d = xfer_live d'"
    by (auto simp: same_buffer_def frame_buffer_def)
  show ?thesis
  proof (cases "length payload < ?n \<or> length (packet d) < packet_len d + ?n")
    case True
    with Cons eq show ?thesis by (auto simp: append_payload_def Let_def)
  next
    case False
    then have ok: "?n \<le> length payload" "packet_len d + ?n \<le> length (packet d)"
      "packet_len d' + ?n \<le> length (packet d')"
      using eq by simp_all
    have "take (packet_len d + ?n) (memcpy (packet d) (packet_len d) payload ?n)
            = take (packet_len d' + ?n) (memcpy (packet d') (packet_len d') payload ?n)"
      using ok eq by (simp only: take_memcpy)
    with Cons False ok eq show ?thesis
      by (simp add: append_payload_def Let_def same_buffer_def frame_buffer_def length_memcpy)
  qed
qed

lemma receive_payload_same:
  assumes "same_frame_buffer s s'"
  shows "rel_sum (=) same_frame_buffer (receive_payload t s) (receive_payload t s')"
proof (cases "actual_length t = 8")
  case False
  with assms show ?thesis by (simp add: receive_payload_def)
next
  case True
  from assms have "same_buffer (priv s) (priv s')"
    by (simp add: same_frame_buffer_def)
  from append_payload_same [OF this, of t]
  have rel: "rel_sum (=) same_buffer (append_payload t (priv s)) (append_payload t (priv s'))" .
  show ?thesis
  proof (cases "append_payload t (priv s)")
    case (Inl f)
    with rel have "append_payload t (priv s') = Inl f"
      by (cases "append_payload t (priv s')") simp_all
    with True Inl show ?thesis by (simp add: receive_payload_def)
  next
    case (Inr d)
    with rel obtain d' where d': "append_payload t (priv s') = Inr d'" "same_buffer d d'"
      by (cases "append_payload t (priv s')") simp_all
    from Inr have le: "packet_len d \<le> length (packet d)"
      by (rule append_payload_Inr)
    from assms d'(2) have "same_frame_buffer (s\<lparr>priv := d\<rparr>) (s'\<lparr>priv := d'\<rparr>)"
      by (simp add: same_frame_buffer_def)
    from detect_frame_same [OF this] le True Inr d'(1) show ?thesis
      by (simp add: receive_payload_def)
  qed
qed

lemma resubmit_same:
  assumes "same_frame_buffer s s'"
  shows "same_frame_buffer (resubmit ret s) (resubmit ret s')"
  using assms by (auto simp: same_frame_buffer_def same_buffer_def resubmit_def frame_buffer_def)

lemma receive_transfer_same:
  assumes "same_frame_buffer s s'"
  shows "rel_sum (=) same_frame_buffer
           (uni_t_ut32x_receive_transfer t ret s) (uni_t_ut32x_receive_transfer t ret s')"
  using receive_payload_same [OF assms, of t]
  by (cases rule: rel_sum.cases) (simp_all add: uni_t_ut32x_receive_transfer_def resubmit_same)

lemma receive_transfers_same:
  assumes "same_frame_buffer s s'"
  shows "rel_sum (=) same_frame_buffer (receive_transfers ts s) (receive_transfers ts s')"
  using assms
proof (induction ts arbitrary: s s')
  case Nil
  then show ?case by simp
next
  case (Cons tr ts)
  obtain t ret where tr: "tr = (t, ret)" by (cases tr)
  from receive_transfer_same [OF Cons.prems, of t ret] show ?case
    by (cases rule: rel_sum.cases) (simp_all add: tr Cons.IH)
qed

lemma same_frame_buffer_empty:
  assumes "packet_len (priv s) = 0" and "length fresh = length (packet (priv s))"
  shows "same_frame_buffer s (s\<lparr>priv := (priv s)\<lparr>packet := fresh\<rparr>\<rparr>)"
  using assms by (simp add: same_frame_buffer_def same_buffer_def frame_buffer_def)

section \<open>The claims\<close>

text \<open>
  C1, the counterexample. A report carrying only the separator terminates a frame of two
  bytes: the decode trigger is reached, \<^verbatim>\<open>process_packet\<close> returns at its length check,
  and the number of samples read stays what it was.
\<close>

theorem unframed_packet_not_counted_counterexample:
  "append_payload (hid_report [0x0D, 0x0A]) (priv idle_device)
     = Inr ((priv idle_device)\<lparr>packet := 0x0D # 0x0A # replicate 30 0, packet_len := 2\<rparr>)
   \<and> end_of_packet ((priv idle_device)\<lparr>packet := 0x0D # 0x0A # replicate 30 0, packet_len := 2\<rparr>)
   \<and> uni_t_ut32x_receive_transfer (hid_report [0x0D, 0x0A]) 0 idle_device
     = Inr (idle_device\<lparr>priv := (priv idle_device)\<lparr>packet := 0x0D # 0x0A # replicate 30 0\<rparr>\<rparr>)
   \<and> samples_read (limits (priv (idle_device
         \<lparr>priv := (priv idle_device)\<lparr>packet := 0x0D # 0x0A # replicate 30 0\<rparr>\<rparr>)))
     = samples_read (limits (priv idle_device))"
  by code_simp

text \<open>
  C1, as the code has it. A frame that reaches the decode trigger is counted exactly once
  if it passes the three checks of \<^verbatim>\<open>process_packet\<close> (19 bytes, the separator at offsets 17
  and 18, the markers at offsets 8 and 16), whether or not a measurement is sent; a frame
  that fails one of them is not counted.
\<close>

theorem counted_iff_well_framed:
  assumes "actual_length t = 8" and "append_payload t (priv sdi) = Inr devc"
    and "end_of_packet devc \<or> buffer_overrun devc"
  shows "\<exists>sdi'. uni_t_ut32x_receive_transfer t ret sdi = Inr sdi'
           \<and> samples_read (limits (priv sdi'))
               = samples_read (limits (priv sdi))
                 + (if well_framed (frame_buffer devc) then 1 else 0)"
proof -
  from assms(2) have "limits devc = limits (priv sdi)"
    by (rule append_payload_Inr)
  then show ?thesis
    using receive_payload_triggered [OF assms]
    by (simp add: uni_t_ut32x_receive_transfer_def resubmit_fields samples_read_process_and_reset)
qed

theorem counted_iff_well_framed_witness:
  "well_framed (ut32x_frame [0x30, 0x32, 0x35, 0x36] 0x31 0x30)
   \<and> (\<exists>sdi'. uni_t_ut32x_receive_transfer (hid_report [0x0D, 0x0A]) 0
               (holding (take 17 (ut32x_frame [0x30, 0x32, 0x35, 0x36] 0x31 0x30))) = Inr sdi'
          \<and> samples_read (limits (priv sdi')) = 1)"
proof -
  let ?sdi = "holding (take 17 (ut32x_frame [0x30, 0x32, 0x35, 0x36] 0x31 0x30))"
  let ?devc = "priv (holding (ut32x_frame [0x30, 0x32, 0x35, 0x36] 0x31 0x30))"
  have 1: "actual_length (hid_report [0x0D, 0x0A]) = 8"
    by (simp add: hid_report_def)
  have 2: "append_payload (hid_report [0x0D, 0x0A]) (priv ?sdi) = Inr ?devc"
    by code_simp
  have 3: "end_of_packet ?devc \<or> buffer_overrun ?devc"
    by code_simp
  have 4: "frame_buffer ?devc = ut32x_frame [0x30, 0x32, 0x35, 0x36] 0x31 0x30"
    by code_simp
  have 5: "well_framed (ut32x_frame [0x30, 0x32, 0x35, 0x36] 0x31 0x30)"
    by code_simp
  have 6: "samples_read (limits (priv ?sdi)) = 0"
    by code_simp
  from counted_iff_well_framed [OF 1 2 3, of 0] show ?thesis
    by (simp add: 4 5 6)
qed

text \<open>
  C2. When the Frame Detector hands over a frame whose length is not 19, the decode
  changes nothing (no record is sent, nothing is counted), and the transfer leaves the state
  as the append made it, with the length of the frame buffer reset to 0.
\<close>

theorem other_length_discarded:
  assumes "actual_length t = 8" and "append_payload t (priv sdi) = Inr devc"
    and "end_of_packet devc \<or> buffer_overrun devc"
    and "packet_len devc \<noteq> PACKET_SIZE"
  shows "process_packet (sdi\<lparr>priv := devc\<rparr>) (frame_buffer devc) = sdi\<lparr>priv := devc\<rparr>
         \<and> receive_payload t sdi = Inr (sdi\<lparr>priv := devc\<lparr>packet_len := 0\<rparr>\<rparr>)"
  using receive_payload_discard [OF assms] by (simp add: process_packet_not_framed)

theorem other_length_discarded_witness:
  "receive_payload (hid_report [0x0D, 0x0A]) idle_device
     = Inr (idle_device\<lparr>priv := (priv idle_device)\<lparr>packet := 0x0D # 0x0A # replicate 30 0\<rparr>\<rparr>)"
proof -
  let ?devc = "(priv idle_device)\<lparr>packet := 0x0D # 0x0A # replicate 30 0, packet_len := 2\<rparr>"
  have 1: "actual_length (hid_report [0x0D, 0x0A]) = 8"
    by (simp add: hid_report_def)
  have 2: "append_payload (hid_report [0x0D, 0x0A]) (priv idle_device) = Inr ?devc"
    by (simp add: append_payload_def hid_report_def idle_device_def memcpy_def)
  have 3: "end_of_packet ?devc \<or> buffer_overrun ?devc"
    by (simp add: end_of_packet_def SEP_def)
  have 4: "packet_len ?devc \<noteq> PACKET_SIZE"
    by (simp add: PACKET_SIZE_def)
  from other_length_discarded [OF 1 2 3 4] show ?thesis
    by (simp add: idle_device_def)
qed

text \<open>
  C3, the counterexample. The field \<open>0256\<close> encodes 256 tenths, and 25.6 has no finite
  binary expansion: the record carries the nearest binary32 number,
  \<open>13421773 / 2 ^ 19\<close>, not \<open>256 / 10\<close>.
\<close>

theorem tenths_not_exact_counterexample:
  "well_framed (ut32x_frame [0x30, 0x32, 0x35, 0x36] 0x31 0x30)
   \<and> well_formed_field [0x30, 0x32, 0x35, 0x36]
   \<and> field_tenths [0x30, 0x32, 0x35, 0x36] = 256
   \<and> map analog_data (session_feed (process_packet idle_device
        (ut32x_frame [0x30, 0x32, 0x35, 0x36] 0x31 0x30))) = [Some (Fin (13421773 / 524288))]
   \<and> Fin (13421773 / 524288) \<noteq> Fin (256 / 10)"
  by code_simp

text \<open>
  C3, as the code has it. For a frame that passes the three checks, with a well-formed
  temperature field and a channel digit in 0..3, the record's temperature is the field's
  signed value in tenths, divided by 10 and rounded once, to the nearest binary32 number:
  the digits accumulate without rounding. Where the tenths are a multiple of 5 the quotient
  is a binary32 number and the temperature is exact: the field \<open>;075\<close> gives \<open>-7.5\<close>.
\<close>

theorem temperature_is_rounded_tenths:
  assumes "well_framed pkt" and "well_formed_field (take 4 (drop 1 pkt))"
    and "uint (pkt ! 13) - 0x30 \<in> {0, 1, 2, 3}"
  shows "map analog_data (session_feed (process_packet sdi pkt))
           = map analog_data (session_feed sdi)
             @ [Some (Fin (f32_round (of_int (field_tenths (take 4 (drop 1 pkt))) / 10)))]
         \<and> (5 dvd field_tenths (take 4 (drop 1 pkt)) \<longrightarrow>
              f32_round (of_int (field_tenths (take 4 (drop 1 pkt))) / 10)
                = of_int (field_tenths (take 4 (drop 1 pkt))) / 10)"
proof -
  let ?field = "take 4 (drop 1 pkt)"
  from assms(1) have len: "length pkt = PACKET_SIZE"
    by (simp add: well_framed_def)
  then have four: "length ?field = 4"
    by (simp add: PACKET_SIZE_def)
  from parse_temperature_value [OF this assms(2)]
  have temp: "parse_temperature (drop 1 pkt) = Fin (f32_round (of_int (field_tenths ?field) / 10))"
    by (simp add: parse_temperature_take)
  from assms(2) have "\<not> (pkt ! 1 = NEG \<and> pkt ! 2 = NEG \<and> pkt ! 3 = NEG \<and> pkt ! 4 = NEG)"
    unfolding field_bytes [OF len] by (rule well_formed_not_all_neg)
  with assms(1,3) temp show ?thesis
    using multiple_of_five_exact [OF four]
    by (simp add: session_feed_process_packet build_analog_eq Let_def)
qed

theorem temperature_is_rounded_tenths_witness:
  "well_framed (ut32x_frame [NEG, 0x30, 0x37, 0x35] 0x31 0x30)
   \<and> well_formed_field [NEG, 0x30, 0x37, 0x35]
   \<and> field_tenths [NEG, 0x30, 0x37, 0x35] = - 75
   \<and> map analog_data (session_feed (process_packet idle_device
        (ut32x_frame [NEG, 0x30, 0x37, 0x35] 0x31 0x30))) = [Some (Fin (- 15 / 2))]"
proof -
  let ?pkt = "ut32x_frame [NEG, 0x30, 0x37, 0x35] 0x31 0x30"
  have f: "take 4 (drop 1 ?pkt) = [NEG, 0x30, 0x37, 0x35]"
    by (simp add: ut32x_frame_def)
  have 1: "well_framed ?pkt"
    by code_simp
  have 2: "well_formed_field (take 4 (drop 1 ?pkt))"
    unfolding f by code_simp
  have 3: "uint (?pkt ! 13) - 0x30 \<in> {0, 1, 2, 3}"
    by (simp add: ut32x_frame_def)
  have 4: "field_tenths [NEG, 0x30, 0x37, 0x35] = - 75"
    by code_simp
  from temperature_is_rounded_tenths [OF 1 2 3, of idle_device] 1 2 show ?thesis
    unfolding f by (simp add: 4 idle_device_def)
qed

text \<open>
  C4. A four-byte temperature field with two or more negative-sign markers makes
  \<^verbatim>\<open>parse_temperature\<close> return the NaN, which \<^verbatim>\<open>isnan\<close> recognises and which is not
  zero (nor any other number).
\<close>

theorem double_negative_is_nan:
  assumes "length field = 4" and "2 \<le> count_list field NEG"
  shows "parse_temperature field = NaN \<and> isnan (parse_temperature field)
         \<and> parse_temperature field \<noteq> Fin 0"
  using assms by (simp add: parse_temperature_def loop_double_negative)

theorem double_negative_is_nan_witness:
  "length [NEG, NEG, 0x31, 0x32] = 4 \<and> 2 \<le> count_list [NEG, NEG, 0x31, 0x32] NEG
   \<and> parse_temperature [NEG, NEG, 0x31, 0x32] = NaN"
proof -
  have h: "length [NEG, NEG, 0x31, 0x32] = 4" "2 \<le> count_list [NEG, NEG, 0x31, 0x32] NEG"
    by simp_all
  from double_negative_is_nan [OF h] h show ?thesis by simp
qed

text \<open>
  C5. After the append of a report's payload, the transfer decodes the frame buffer and
  resets it exactly when the buffer is terminated or overrun, in the specification's sense;
  the frame decoded is the whole buffer, overrun or not, and both cases do the same, so
  that their order cannot be observed. A buffer that is neither is left as the append made
  it.
\<close>

theorem frame_detector:
  assumes "actual_length t = 8" and "append_payload t (priv sdi) = Inr devc"
  shows "receive_payload t sdi =
           Inr (if terminated (frame_buffer devc) \<or> overrun (frame_buffer devc)
                then (let sdi' = process_packet (sdi\<lparr>priv := devc\<rparr>) (frame_buffer devc)
                      in sdi'\<lparr>priv := (priv sdi')\<lparr>packet_len := 0\<rparr>\<rparr>)
                else sdi\<lparr>priv := devc\<rparr>)"
proof -
  from assms(2) have le: "packet_len devc \<le> length (packet devc)"
    by (rule append_payload_Inr)
  have eop: "end_of_packet devc = terminated (frame_buffer devc)"
    by (rule end_of_packet_terminated [OF le])
  have ovr: "buffer_overrun devc = overrun (frame_buffer devc)"
    by (rule buffer_overrun_overrun [OF le])
  have par: "process_and_reset (sdi\<lparr>priv := devc\<rparr>) =
               (let sdi' = process_packet (sdi\<lparr>priv := devc\<rparr>) (frame_buffer devc)
                in sdi'\<lparr>priv := (priv sdi')\<lparr>packet_len := 0\<rparr>\<rparr>)"
    by (simp add: process_and_reset_def frame_buffer_def)
  show ?thesis
    using assms by (simp add: receive_payload_def detect_frame_def eop ovr par)
qed

theorem frame_detector_witness:
  "terminated (ut32x_frame [0x30, 0x32, 0x35, 0x36] 0x31 0x30)
   \<and> receive_payload (hid_report [0x0D, 0x0A])
         (holding (take 17 (ut32x_frame [0x30, 0x32, 0x35, 0x36] 0x31 0x30)))
       = Inr ((process_packet (holding (ut32x_frame [0x30, 0x32, 0x35, 0x36] 0x31 0x30))
                (ut32x_frame [0x30, 0x32, 0x35, 0x36] 0x31 0x30))
              \<lparr>priv := (priv (process_packet (holding (ut32x_frame [0x30, 0x32, 0x35, 0x36] 0x31 0x30))
                (ut32x_frame [0x30, 0x32, 0x35, 0x36] 0x31 0x30)))\<lparr>packet_len := 0\<rparr>\<rparr>)
   \<and> \<not> terminated [0x30, 0x0D] \<and> \<not> overrun [0x30, 0x0D]
   \<and> receive_payload (hid_report [0x30, 0x0D]) idle_device = Inr (holding [0x30, 0x0D])"
proof -
  let ?pkt = "ut32x_frame [0x30, 0x32, 0x35, 0x36] 0x31 0x30"
  have 1: "actual_length (hid_report [0x0D, 0x0A]) = 8" "actual_length (hid_report [0x30, 0x0D]) = 8"
    by (simp_all add: hid_report_def)
  have 2: "append_payload (hid_report [0x0D, 0x0A]) (priv (holding (take 17 ?pkt)))
             = Inr (priv (holding ?pkt))"
    by code_simp
  have 3: "frame_buffer (priv (holding ?pkt)) = ?pkt"
    by code_simp
  have 4: "terminated ?pkt"
    by code_simp
  have 5: "(holding (take 17 ?pkt))\<lparr>priv := priv (holding ?pkt)\<rparr> = holding ?pkt"
    by (simp add: holding_def)
  have 6: "append_payload (hid_report [0x30, 0x0D]) (priv idle_device)
             = Inr (priv (holding [0x30, 0x0D]))"
    by code_simp
  have 7: "frame_buffer (priv (holding [0x30, 0x0D])) = [0x30, 0x0D]"
    by code_simp
  have 8: "\<not> terminated [0x30, 0x0D]" "\<not> overrun [0x30, 0x0D]"
    by (simp_all add: terminated_def overrun_def SEP_def)
  have 9: "idle_device\<lparr>priv := priv (holding [0x30, 0x0D])\<rparr> = holding [0x30, 0x0D]"
    by (simp add: holding_def)
  from frame_detector [OF 1(1) 2] frame_detector [OF 1(2) 6] show ?thesis
    by (simp add: 3 4 5 7 8 9 Let_def)
qed

text \<open>
  C6. A decode, of whatever frame, changes neither the packet array nor the length in use,
  and the transfer that triggers it leaves the length of the frame buffer at 0. From then on the bytes left in the array are
  never read: whatever transfers follow, their outcome (a fault, or the records sent, the
  counters and the frame buffer) is the same as with any other content of the array, so
  that what is decoded next is made of the bytes that follow alone.
\<close>

theorem no_bytes_retained:
  fixes t :: libusb_transfer and ret :: int and sdi :: sr_dev_inst and devc :: dev_context
  assumes "actual_length t = 8" and "append_payload t (priv sdi) = Inr devc"
    and "end_of_packet devc \<or> buffer_overrun devc"
  defines "sdi1 \<equiv> resubmit ret (process_and_reset (sdi\<lparr>priv := devc\<rparr>))"
  shows "packet (priv (process_packet (sdi\<lparr>priv := devc\<rparr>) pkt)) = packet devc
         \<and> packet_len (priv (process_packet (sdi\<lparr>priv := devc\<rparr>) pkt)) = packet_len devc
         \<and> uni_t_ut32x_receive_transfer t ret sdi = Inr sdi1
         \<and> packet_len (priv sdi1) = 0 \<and> frame_buffer (priv sdi1) = []
         \<and> (\<forall>ts fresh. length fresh = length (packet devc) \<longrightarrow>
               rel_sum (=) same_frame_buffer
                 (receive_transfers ts sdi1)
                 (receive_transfers ts (sdi1\<lparr>priv := (priv sdi1)\<lparr>packet := fresh\<rparr>\<rparr>)))"
proof -
  have 1: "uni_t_ut32x_receive_transfer t ret sdi = Inr sdi1"
    using receive_payload_triggered [OF assms(1-3)]
    by (simp add: uni_t_ut32x_receive_transfer_def sdi1_def)
  have 2: "packet_len (priv sdi1) = 0" "packet (priv sdi1) = packet devc"
    by (simp_all add: sdi1_def resubmit_fields packet_process_and_reset)
  then have 3: "frame_buffer (priv sdi1) = []"
    by (simp add: frame_buffer_def)
  have 4: "rel_sum (=) same_frame_buffer
             (receive_transfers ts sdi1)
             (receive_transfers ts (sdi1\<lparr>priv := (priv sdi1)\<lparr>packet := fresh\<rparr>\<rparr>))"
    if "length fresh = length (packet devc)" for ts fresh
    using that 2 by (intro receive_transfers_same same_frame_buffer_empty) simp_all
  from 1 2 3 4 show ?thesis
    by (simp add: packet_process_packet)
qed

theorem no_bytes_retained_witness:
  "uni_t_ut32x_receive_transfer (hid_report [0x41]) 0 (holding (replicate 19 0x41))
     = Inr (idle_device\<lparr>priv := (priv idle_device)\<lparr>packet := replicate 20 0x41 @ replicate 12 0\<rparr>\<rparr>)
   \<and> rel_sum (=) same_frame_buffer
        (receive_transfers
           [(hid_report (take 7 (ut32x_frame [0x30, 0x32, 0x35, 0x36] 0x31 0x30)), 0),
            (hid_report (take 7 (drop 7 (ut32x_frame [0x30, 0x32, 0x35, 0x36] 0x31 0x30))), 0),
            (hid_report (drop 14 (ut32x_frame [0x30, 0x32, 0x35, 0x36] 0x31 0x30)), 0)]
           (idle_device\<lparr>priv := (priv idle_device)\<lparr>packet := replicate 20 0x41 @ replicate 12 0\<rparr>\<rparr>))
        (receive_transfers
           [(hid_report (take 7 (ut32x_frame [0x30, 0x32, 0x35, 0x36] 0x31 0x30)), 0),
            (hid_report (take 7 (drop 7 (ut32x_frame [0x30, 0x32, 0x35, 0x36] 0x31 0x30))), 0),
            (hid_report (drop 14 (ut32x_frame [0x30, 0x32, 0x35, 0x36] 0x31 0x30)), 0)]
           idle_device)
   \<and> map_sum id (map analog_data \<circ> session_feed)
        (receive_transfers
           [(hid_report (take 7 (ut32x_frame [0x30, 0x32, 0x35, 0x36] 0x31 0x30)), 0),
            (hid_report (take 7 (drop 7 (ut32x_frame [0x30, 0x32, 0x35, 0x36] 0x31 0x30))), 0),
            (hid_report (drop 14 (ut32x_frame [0x30, 0x32, 0x35, 0x36] 0x31 0x30)), 0)]
           idle_device)
       = Inr [Some (Fin (13421773 / 524288))]"
proof -
  let ?devc = "(priv idle_device)\<lparr>packet := replicate 20 0x41 @ replicate 12 0, packet_len := 20\<rparr>"
  let ?sdi = "holding (replicate 19 0x41)"
  let ?sdi1 = "idle_device\<lparr>priv := (priv idle_device)\<lparr>packet := replicate 20 0x41 @ replicate 12 0\<rparr>\<rparr>"
  have 1: "actual_length (hid_report [0x41]) = 8"
    by (simp add: hid_report_def)
  have 2: "append_payload (hid_report [0x41]) (priv ?sdi) = Inr ?devc"
    by code_simp
  have 3: "end_of_packet ?devc \<or> buffer_overrun ?devc"
    by (simp add: buffer_overrun_def PACKET_SIZE_def)
  have 4: "resubmit 0 (process_and_reset (?sdi\<lparr>priv := ?devc\<rparr>)) = ?sdi1"
    by code_simp
  have 5: "?sdi1\<lparr>priv := (priv ?sdi1)\<lparr>packet := replicate 32 0\<rparr>\<rparr> = idle_device"
    by (simp add: idle_device_def)
  have 6: "length (replicate 32 (0::u8)) = length (packet ?devc)"
    by simp
  have 7: "map_sum id (map analog_data \<circ> session_feed)
        (receive_transfers
           [(hid_report (take 7 (ut32x_frame [0x30, 0x32, 0x35, 0x36] 0x31 0x30)), 0),
            (hid_report (take 7 (drop 7 (ut32x_frame [0x30, 0x32, 0x35, 0x36] 0x31 0x30))), 0),
            (hid_report (drop 14 (ut32x_frame [0x30, 0x32, 0x35, 0x36] 0x31 0x30)), 0)]
           idle_device)
       = Inr [Some (Fin (13421773 / 524288))]"
    by code_simp
  let ?ts = "[(hid_report (take 7 (ut32x_frame [0x30, 0x32, 0x35, 0x36] 0x31 0x30)), 0::int),
            (hid_report (take 7 (drop 7 (ut32x_frame [0x30, 0x32, 0x35, 0x36] 0x31 0x30))), 0),
            (hid_report (drop 14 (ut32x_frame [0x30, 0x32, 0x35, 0x36] 0x31 0x30)), 0)]"
  from no_bytes_retained [OF 1 2 3, where ret = 0] have a:
    "uni_t_ut32x_receive_transfer (hid_report [0x41]) 0 ?sdi = Inr ?sdi1"
    and b: "\<forall>ts fresh. length fresh = length (packet ?devc) \<longrightarrow>
               rel_sum (=) same_frame_buffer
                 (receive_transfers ts ?sdi1)
                 (receive_transfers ts (?sdi1\<lparr>priv := (priv ?sdi1)\<lparr>packet := fresh\<rparr>\<rparr>))"
    unfolding 4 by blast+
  from b 6 have "rel_sum (=) same_frame_buffer
                 (receive_transfers ?ts ?sdi1)
                 (receive_transfers ?ts (?sdi1\<lparr>priv := (priv ?sdi1)\<lparr>packet := replicate 32 0\<rparr>\<rparr>))"
    by blast
  then have c: "rel_sum (=) same_frame_buffer (receive_transfers ?ts ?sdi1) (receive_transfers ?ts idle_device)"
    unfolding 5 .
  from a c 7 show ?thesis
    by blast
qed

text \<open>
  C7. A frame that passes the three checks and whose temperature field is four negative-sign
  markers sends no record to the session and is counted once.
\<close>

theorem no_measurement_counted_not_sent:
  assumes "well_framed pkt"
    and "pkt ! 1 = NEG" and "pkt ! 2 = NEG" and "pkt ! 3 = NEG" and "pkt ! 4 = NEG"
  shows "session_feed (process_packet sdi pkt) = session_feed sdi
         \<and> samples_read (limits (priv (process_packet sdi pkt)))
             = samples_read (limits (priv sdi)) + 1"
  using assms by (simp add: session_feed_process_packet samples_read_process_packet)

theorem no_measurement_counted_not_sent_witness:
  "well_framed (ut32x_frame [NEG, NEG, NEG, NEG] 0x31 0x30)
   \<and> session_feed (process_packet idle_device (ut32x_frame [NEG, NEG, NEG, NEG] 0x31 0x30)) = []
   \<and> samples_read (limits (priv (process_packet idle_device
        (ut32x_frame [NEG, NEG, NEG, NEG] 0x31 0x30)))) = 1"
proof -
  let ?pkt = "ut32x_frame [NEG, NEG, NEG, NEG] 0x31 0x30"
  have 1: "well_framed ?pkt"
    by code_simp
  have 2: "?pkt ! 1 = NEG" "?pkt ! 2 = NEG" "?pkt ! 3 = NEG" "?pkt ! 4 = NEG"
    by (simp_all add: ut32x_frame_def)
  from no_measurement_counted_not_sent [OF 1 2, of idle_device] 1 show ?thesis
    by (simp add: idle_device_def)
qed

text \<open>
  C8. For a frame that carries a measurement, the record sent is determined by the digits
  at offsets 5 and 13. A unit digit other than 1, 2, 3 leaves the unit unset and the record
  is sent all the same; a channel digit other than 0, 1, 2, 3 sends no record; the channel
  digits 2 and 3 select the third channel (T1-T2) and set the relative flag.
\<close>

theorem unit_unknown_sent_channel_unknown_dropped:
  assumes "carries_measurement pkt"
  shows "session_feed (process_packet sdi pkt) =
     (let u = uint (pkt ! 5) - 0x30; c = uint (pkt ! 13) - 0x30
      in if c \<in> {0, 1, 2, 3} then
           session_feed sdi @
             [\<lparr>analog_data = Some (parse_temperature (drop 1 pkt)), num_samples = 1, encoding_digits = 1,
               meaning_mq = Some SR_MQ_TEMPERATURE,
               meaning_unit =
                 (if u = 1 then Some SR_UNIT_CELSIUS
                  else if u = 2 then Some SR_UNIT_FAHRENHEIT
                  else if u = 3 then Some SR_UNIT_KELVIN
                  else None),
               meaning_mqflags = (if c = 2 \<or> c = 3 then {SR_MQFLAG_RELATIVE} else {}),
               meaning_channels =
                 [g_slist_nth_data (channels sdi) (if c = 2 \<or> c = 3 then 2 else nat c)]\<rparr>]
         else session_feed sdi)"
  using assms
  by (simp add: carries_measurement_def session_feed_process_packet build_analog_eq Let_def)

theorem unit_unknown_sent_channel_unknown_dropped_witness:
  "carries_measurement (ut32x_frame [0x30, 0x32, 0x35, 0x36] 0x37 0x33)
   \<and> session_feed (process_packet idle_device (ut32x_frame [0x30, 0x32, 0x35, 0x36] 0x37 0x33))
       = [\<lparr>analog_data = Some (parse_temperature [0x30, 0x32, 0x35, 0x36]), num_samples = 1, encoding_digits = 1,
           meaning_mq = Some SR_MQ_TEMPERATURE, meaning_unit = None,
           meaning_mqflags = {SR_MQFLAG_RELATIVE}, meaning_channels = [Some ''T1-T2'']\<rparr>]
   \<and> carries_measurement (ut32x_frame [0x30, 0x32, 0x35, 0x36] 0x31 0x34)
   \<and> session_feed (process_packet idle_device (ut32x_frame [0x30, 0x32, 0x35, 0x36] 0x31 0x34)) = []"
proof -
  let ?a = "ut32x_frame [0x30, 0x32, 0x35, 0x36] 0x37 0x33"
  let ?b = "ut32x_frame [0x30, 0x32, 0x35, 0x36] 0x31 0x34"
  have a: "carries_measurement ?a"
    by code_simp
  have b: "carries_measurement ?b"
    by code_simp
  have field: "parse_temperature (drop 1 ?a) = parse_temperature [0x30, 0x32, 0x35, 0x36]"
    by (simp add: ut32x_frame_def parse_temperature_def)
  from unit_unknown_sent_channel_unknown_dropped [OF a, of idle_device]
    unit_unknown_sent_channel_unknown_dropped [OF b, of idle_device] a b field
  show ?thesis
    by (simp add: ut32x_frame_def idle_device_def g_slist_nth_data_def)
qed

text \<open>
  C9. A frame decoded on the overrun path (more than 19 bytes in the buffer, not
  terminated) fails the length check of \<^verbatim>\<open>process_packet\<close>: the transfer sends no record,
  leaves the number of samples read unchanged, and resets the buffer.
\<close>

theorem overrun_frame_dropped:
  assumes "actual_length t = 8" and "append_payload t (priv sdi) = Inr devc"
    and "\<not> end_of_packet devc" and "buffer_overrun devc"
  shows "length (frame_buffer devc) \<noteq> PACKET_SIZE
         \<and> (\<exists>sdi'. uni_t_ut32x_receive_transfer t ret sdi = Inr sdi'
               \<and> session_feed sdi' = session_feed sdi
               \<and> samples_read (limits (priv sdi')) = samples_read (limits (priv sdi))
               \<and> packet_len (priv sdi') = 0)"
proof -
  from assms(2) have le: "packet_len devc \<le> length (packet devc)"
    by (rule append_payload_Inr)
  from assms(4) have ne: "packet_len devc \<noteq> PACKET_SIZE"
    by (simp add: buffer_overrun_def)
  from assms(4) have "end_of_packet devc \<or> buffer_overrun devc" ..
  from receive_payload_discard(2) [OF assms(1,2) this ne]
  have "uni_t_ut32x_receive_transfer t ret sdi
          = Inr (resubmit ret (sdi\<lparr>priv := devc\<lparr>packet_len := 0\<rparr>\<rparr>))"
    by (simp add: uni_t_ut32x_receive_transfer_def)
  moreover from assms(2) have "limits devc = limits (priv sdi)"
    by (rule append_payload_Inr)
  ultimately show ?thesis
    using le ne by (simp add: resubmit_fields length_frame_buffer)
qed

theorem overrun_frame_dropped_witness:
  "\<exists>sdi'. uni_t_ut32x_receive_transfer (hid_report [0x41]) 0 (holding (replicate 19 0x41)) = Inr sdi'
     \<and> session_feed sdi' = session_feed (holding (replicate 19 0x41))
     \<and> samples_read (limits (priv sdi')) = samples_read (limits (priv (holding (replicate 19 0x41))))
     \<and> packet_len (priv sdi') = 0"
proof -
  let ?devc = "(priv idle_device)\<lparr>packet := replicate 20 0x41 @ replicate 12 0, packet_len := 20\<rparr>"
  have 1: "actual_length (hid_report [0x41]) = 8"
    by (simp add: hid_report_def)
  have 2: "append_payload (hid_report [0x41]) (priv (holding (replicate 19 0x41))) = Inr ?devc"
    by code_simp
  have 3: "\<not> end_of_packet ?devc"
    by code_simp
  have 4: "buffer_overrun ?devc"
    by (simp add: buffer_overrun_def PACKET_SIZE_def)
  from overrun_frame_dropped [OF 1 2 3 4, of 0] show ?thesis
    by simp
qed

text \<open>
  C10. The field of four blanks parses to the number 0, not to the NaN, and a frame that
  passes the three checks and has a channel digit in 0..3 sends a record with that value.
\<close>

theorem blank_field_is_zero:
  assumes "well_framed pkt" and "take 4 (drop 1 pkt) = [BLANK, BLANK, BLANK, BLANK]"
    and "uint (pkt ! 13) - 0x30 \<in> {0, 1, 2, 3}"
  shows "parse_temperature [BLANK, BLANK, BLANK, BLANK] = Fin 0
         \<and> map analog_data (session_feed (process_packet sdi pkt))
             = map analog_data (session_feed sdi) @ [Some (Fin 0)]"
proof -
  have ten: "f32_of_int 10 = Fin 10"
    using f32_of_int_exact [of 10] by simp
  have zero: "parse_temperature [BLANK, BLANK, BLANK, BLANK] = Fin 0"
    by (simp add: parse_temperature_def ten f32_round_def)
  from assms(1) have len: "length pkt = PACKET_SIZE"
    by (simp add: well_framed_def)
  from assms(2) have "parse_temperature (drop 1 pkt) = parse_temperature [BLANK, BLANK, BLANK, BLANK]"
    using parse_temperature_take [of "drop 1 pkt"] by simp
  with zero have temp: "parse_temperature (drop 1 pkt) = Fin 0"
    by simp
  from assms(2) field_bytes [OF len] have "pkt ! 1 = BLANK"
    by simp
  then have "pkt ! 1 \<noteq> NEG"
    by (simp add: BLANK_def NEG_def)
  with assms(1,3) temp zero show ?thesis
    by (simp add: session_feed_process_packet build_analog_eq Let_def)
qed

theorem blank_field_is_zero_witness:
  "well_framed (ut32x_frame [BLANK, BLANK, BLANK, BLANK] 0x31 0x30)
   \<and> map analog_data (session_feed (process_packet idle_device
        (ut32x_frame [BLANK, BLANK, BLANK, BLANK] 0x31 0x30))) = [Some (Fin 0)]"
proof -
  let ?pkt = "ut32x_frame [BLANK, BLANK, BLANK, BLANK] 0x31 0x30"
  have 1: "well_framed ?pkt"
    by code_simp
  have 2: "take 4 (drop 1 ?pkt) = [BLANK, BLANK, BLANK, BLANK]"
    by (simp add: ut32x_frame_def)
  have 3: "uint (?pkt ! 13) - 0x30 \<in> {0, 1, 2, 3}"
    by (simp add: ut32x_frame_def)
  from blank_field_is_zero [OF 1 2 3, of idle_device] 1 show ?thesis
    by (simp add: idle_device_def)
qed

end
